theory Spec2Isabelle
  imports Complex_Main
begin

section \<open>Monte Carlo integration notebook (ejercicios/10/integral\_MC.ipynb)\<close>

text \<open>
  The notebook has two code cells of the same shape. Each binds an integrand \<open>f\<close>, a
  closed form \<open>integral_analitica\<close>, an estimator \<open>integral_monte_carlo\<close>, and then runs
  a loop over \<open>puntos = np.int_(np.logspace(1,5,n_intentos))\<close> that stores
  \<open>np.abs((a-b)/a)\<close> in \<open>diferencias[i]\<close>.

  Conventions of the embedding:
  \<^item> A finite double is carried as the real number it denotes (rounding is not modelled);
    the IEEE special values that the code can produce by dividing by zero are kept.
    Signed zeros are not distinguished.
  \<^item> numpy's global generator is an explicit state of type \<open>'g\<close> threaded through every
    call; the primitive that draws one variate is a parameter.
  \<^item> The global names \<open>f\<close> and \<open>integral_analitica\<close>, which the notebook rebinds between
    the cells, are parameters of the functions that look them up.
\<close>

subsection \<open>Values and errors\<close>

datatype error = ValueError | IndexError

datatype float64 = Finite real | PosInf | NegInf | NaN

text \<open>\<open>x - y\<close> on doubles.\<close>

fun np_subtract :: "float64 \<Rightarrow> float64 \<Rightarrow> float64" where
  "np_subtract NaN _ = NaN"
| "np_subtract _ NaN = NaN"
| "np_subtract (Finite x) (Finite y) = Finite (x - y)"
| "np_subtract (Finite x) PosInf = NegInf"
| "np_subtract (Finite x) NegInf = PosInf"
| "np_subtract PosInf (Finite y) = PosInf"
| "np_subtract PosInf PosInf = NaN"
| "np_subtract PosInf NegInf = PosInf"
| "np_subtract NegInf (Finite y) = NegInf"
| "np_subtract NegInf PosInf = NegInf"
| "np_subtract NegInf NegInf = NaN"

text \<open>
  \<open>x / y\<close> on numpy scalars: a zero divisor raises nothing (numpy only warns), the
  quotient is an infinity, or NaN for \<open>0/0\<close>.
\<close>

fun np_true_divide :: "float64 \<Rightarrow> float64 \<Rightarrow> float64" where
  "np_true_divide NaN _ = NaN"
| "np_true_divide _ NaN = NaN"
| "np_true_divide (Finite x) (Finite y) =
     (if y \<noteq> 0 then Finite (x / y)
      else if 0 < x then PosInf
      else if x < 0 then NegInf
      else NaN)"
| "np_true_divide (Finite x) PosInf = Finite 0"
| "np_true_divide (Finite x) NegInf = Finite 0"
| "np_true_divide PosInf (Finite y) = (if 0 \<le> y then PosInf else NegInf)"
| "np_true_divide NegInf (Finite y) = (if 0 \<le> y then NegInf else PosInf)"
| "np_true_divide PosInf PosInf = NaN"
| "np_true_divide PosInf NegInf = NaN"
| "np_true_divide NegInf PosInf = NaN"
| "np_true_divide NegInf NegInf = NaN"

fun np_abs :: "float64 \<Rightarrow> float64" where
  "np_abs (Finite x) = Finite \<bar>x\<bar>"
| "np_abs PosInf = PosInf"
| "np_abs NegInf = PosInf"
| "np_abs NaN = NaN"

subsection \<open>The random source\<close>

text \<open>
  A primitive draws one variate and advances the generator. \<open>sample_array\<close> fills an
  array of \<open>n\<close> variates in index order, as numpy's array fillers do.
\<close>

type_synonym 'g variate = "'g \<Rightarrow> real \<times> 'g"

fun sample_array :: "'g variate \<Rightarrow> nat \<Rightarrow> 'g \<Rightarrow> real list \<times> 'g" where
  "sample_array rk 0 g = ([], g)"
| "sample_array rk (Suc n) g =
     (case rk g of (x, g1) \<Rightarrow>
        (case sample_array rk n g1 of (xs, g2) \<Rightarrow> (x # xs, g2)))"

text \<open>
  \<open>np.random.random(N)\<close>: \<open>N\<close> uniform variates on [0,1); a negative size raises
  ValueError (negative dimensions are not allowed).
\<close>

definition np_random_random :: "'g variate \<Rightarrow> int \<Rightarrow> 'g \<Rightarrow> error + (real list \<times> 'g)" where
  "np_random_random rk_double N g =
     (if N < 0 then Inl ValueError else Inr (sample_array rk_double (nat N) g))"

text \<open>
  \<open>np.random.exponential(size=N)\<close>: \<open>N\<close> variates of the exponential distribution with
  the default scale 1.0; a negative size raises ValueError.
\<close>

definition np_random_exponential :: "'g variate \<Rightarrow> int \<Rightarrow> 'g \<Rightarrow> error + (real list \<times> 'g)" where
  "np_random_exponential rk_exponential N g =
     (if N < 0 then Inl ValueError else Inr (sample_array rk_exponential (nat N) g))"

subsection \<open>The estimators\<close>

text \<open>
  First cell:
  \<^verbatim>\<open>
  def integral_monte_carlo(N=100):
      x = np.random.random(N)
      return np.sum(f(x))/N
  \<close>
  The optional argument is an \<open>int option\<close>; \<open>f\<close> is a numpy ufunc applied to the whole
  array, that is, to each element.
\<close>

definition integral_monte_carlo_uniform ::
  "(real \<Rightarrow> real) \<Rightarrow> 'g variate \<Rightarrow> int option \<Rightarrow> 'g \<Rightarrow> error + (float64 \<times> 'g)" where
  "integral_monte_carlo_uniform f rk_double N_arg g =
     (let N = (case N_arg of None \<Rightarrow> 100 | Some n \<Rightarrow> n) in
      case np_random_random rk_double N g of
        Inl e \<Rightarrow> Inl e
      | Inr (x, g') \<Rightarrow>
          Inr (np_true_divide (Finite (sum_list (map f x))) (Finite (of_int N)), g'))"

text \<open>
  Second cell:
  \<^verbatim>\<open>
  def integral_monte_carlo(N=100):
      x = np.random.exponential(size=N)
      return np.sum(f(x))/N
  \<close>
\<close>

definition integral_monte_carlo_exponential ::
  "(real \<Rightarrow> real) \<Rightarrow> 'g variate \<Rightarrow> int option \<Rightarrow> 'g \<Rightarrow> error + (float64 \<times> 'g)" where
  "integral_monte_carlo_exponential f rk_exponential N_arg g =
     (let N = (case N_arg of None \<Rightarrow> 100 | Some n \<Rightarrow> n) in
      case np_random_exponential rk_exponential N g of
        Inl e \<Rightarrow> Inl e
      | Inr (x, g') \<Rightarrow>
          Inr (np_true_divide (Finite (sum_list (map f x))) (Finite (of_int N)), g'))"

text \<open>The integrands and closed forms the two cells bind.\<close>

definition f_1 :: "real \<Rightarrow> real" where
  "f_1 x = exp x"

definition integral_analitica_1 :: float64 where
  "integral_analitica_1 = Finite (exp 1 - 1)"

definition f_2 :: "real \<Rightarrow> real" where
  "f_2 x = sin x"

definition integral_analitica_2 :: float64 where
  "integral_analitica_2 = Finite (1 / 2)"

subsection \<open>Sample counts\<close>

text \<open>
  \<open>np.linspace(start, stop, num)\<close> with the default \<open>endpoint=True\<close>: the step is
  \<open>(stop - start) / (num - 1)\<close>, the values are \<open>i * step + start\<close>, and for
  \<open>num > 1\<close> the last one is overwritten with \<open>stop\<close>. For \<open>num = 1\<close> the only value is
  \<open>0 * (stop - start) + start\<close>.
  (For a zero step numpy computes \<open>i / (num - 1) * (stop - start)\<close> instead, which is
  the same real number.)
\<close>

definition np_linspace :: "real \<Rightarrow> real \<Rightarrow> nat \<Rightarrow> real list" where
  "np_linspace start stop num =
     (if 1 < num
      then (map (\<lambda>i. real i * ((stop - start) / real (num - 1)) + start) [0..<num])
             [num - 1 := stop]
      else map (\<lambda>i. real i * (stop - start) + start) [0..<num])"

text \<open>\<open>np.logspace(start, stop, num)\<close> with the default base 10.\<close>

definition np_logspace :: "real \<Rightarrow> real \<Rightarrow> nat \<Rightarrow> real list" where
  "np_logspace start stop num = map (\<lambda>y. 10 powr y) (np_linspace start stop num)"

text \<open>
  \<open>np.int_\<close> (named \<open>np_int\<close> here) on an array of doubles is the C conversion of each
  element to a signed 64-bit integer. It drops the fraction. A value whose integer part
  does not fit in 64 bits converts to the smallest 64-bit integer, \<open>-2^63\<close> (what the
  x86-64 conversion instruction returns).
\<close>

definition int64_of_double :: "real \<Rightarrow> int" where
  "int64_of_double x =
     (let t = (if 0 \<le> x then \<lfloor>x\<rfloor> else \<lceil>x\<rceil>)
      in if - (2 ^ 63) \<le> t \<and> t < 2 ^ 63 then t else - (2 ^ 63))"

definition np_int :: "real list \<Rightarrow> int list" where
  "np_int xs = map int64_of_double xs"

definition np_ones :: "nat \<Rightarrow> float64 list" where
  "np_ones n = replicate n (Finite 1)"

subsection \<open>The convergence loop\<close>

text \<open>
  \<^verbatim>\<open>
  n_intentos = 10
  puntos = np.int_(np.logspace(1,5,n_intentos))
  diferencias = np.ones(n_intentos)
  for i in range(n_intentos):
      a = integral_analitica()
      b = integral_monte_carlo(N=puntos[i])
      diferencias[i] =  (np.abs((a-b)/a))
  \<close>
  The loop state is the array \<open>diferencias\<close> and the generator. An exception raised in
  the body ends the loop. The literals \<open>1\<close>, \<open>5\<close> and the value of \<open>n_intentos\<close> are
  arguments of \<open>sweep\<close>; the cells instantiate them.
\<close>

type_synonym 'g estimator = "int option \<Rightarrow> 'g \<Rightarrow> error + (float64 \<times> 'g)"

definition sweep_body ::
  "'g estimator \<Rightarrow> float64 \<Rightarrow> int list \<Rightarrow> nat \<Rightarrow> float64 list \<times> 'g \<Rightarrow> error + (float64 list \<times> 'g)" where
  "sweep_body integral_monte_carlo integral_analitica puntos i s =
     (case s of (diferencias, g) \<Rightarrow>
        if length puntos \<le> i then Inl IndexError
        else (case integral_monte_carlo (Some (puntos ! i)) g of
                Inl e \<Rightarrow> Inl e
              | Inr (b, g') \<Rightarrow>
                  if length diferencias \<le> i then Inl IndexError
                  else Inr (diferencias
                              [i := np_abs (np_true_divide
                                              (np_subtract integral_analitica b)
                                              integral_analitica)],
                            g')))"

primrec for_range :: "(nat \<Rightarrow> 's \<Rightarrow> error + 's) \<Rightarrow> nat list \<Rightarrow> 's \<Rightarrow> error + 's" where
  "for_range body [] s = Inr s"
| "for_range body (i # is) s =
     (case body i s of Inl e \<Rightarrow> Inl e | Inr s' \<Rightarrow> for_range body is s')"

definition puntos :: "real \<Rightarrow> real \<Rightarrow> nat \<Rightarrow> int list" where
  "puntos start stop n_intentos = np_int (np_logspace start stop n_intentos)"

definition sweep ::
  "'g estimator \<Rightarrow> float64 \<Rightarrow> real \<Rightarrow> real \<Rightarrow> nat \<Rightarrow> 'g \<Rightarrow> error + (float64 list \<times> 'g)" where
  "sweep integral_monte_carlo integral_analitica start stop n_intentos g =
     for_range
       (sweep_body integral_monte_carlo integral_analitica (puntos start stop n_intentos))
       [0..<n_intentos]
       (np_ones n_intentos, g)"

text \<open>The two cells as they stand in the notebook.\<close>

definition diferencias_1 :: "'g variate \<Rightarrow> 'g \<Rightarrow> error + (float64 list \<times> 'g)" where
  "diferencias_1 rk_double g =
     sweep (integral_monte_carlo_uniform f_1 rk_double) integral_analitica_1 1 5 10 g"

definition diferencias_2 :: "'g variate \<Rightarrow> 'g \<Rightarrow> error + (float64 list \<times> 'g)" where
  "diferencias_2 rk_exponential g =
     sweep (integral_monte_carlo_exponential f_2 rk_exponential) integral_analitica_2 1 5 10 g"

subsection \<open>Auxiliary notions for stating the results\<close>

text \<open>
  \<open>trial_state est ps i g\<close> is the generator after the first \<open>i\<close> estimator calls, made in
  index order with the sample counts \<open>ps\<close>, starting from \<open>g\<close>; \<open>trial_estimate\<close> is the
  value the \<open>i\<close>-th call returns there. (Where a call raises, the state is left as it
  was and the value is NaN; the loop never gets past such a call.)
\<close>

primrec trial_state :: "'g estimator \<Rightarrow> int list \<Rightarrow> nat \<Rightarrow> 'g \<Rightarrow> 'g" where
  "trial_state est ps 0 g = g"
| "trial_state est ps (Suc i) g =
     (case est (Some (ps ! i)) (trial_state est ps i g) of
        Inl e \<Rightarrow> trial_state est ps i g
      | Inr (b, g') \<Rightarrow> g')"

definition trial_estimate :: "'g estimator \<Rightarrow> int list \<Rightarrow> nat \<Rightarrow> 'g \<Rightarrow> float64" where
  "trial_estimate est ps i g =
     (case est (Some (ps ! i)) (trial_state est ps i g) of
        Inl e \<Rightarrow> NaN
      | Inr (b, g') \<Rightarrow> b)"

text \<open>
  A deterministic stand-in for the generator, used to run the model on concrete inputs:
  the state counts the draws, and the \<open>k\<close>-th draw is \<open>1 / (k + 2)\<close>.
\<close>

definition counter_rk :: "nat variate" where
  "counter_rk g = (1 / real (g + 2), Suc g)"

section \<open>Properties of the estimators\<close>

lemma length_sample_array: "length (fst (sample_array rk n g)) = n"
proof (induction n arbitrary: g)
  case 0
  show ?case by simp
next
  case (Suc n)
  obtain x g1 where d: "rk g = (x, g1)" by (cases "rk g")
  obtain xs g2 where r: "sample_array rk n g1 = (xs, g2)" by (cases "sample_array rk n g1")
  from Suc [of g1] r have "length xs = n" by simp
  with d r show ?case by simp
qed

lemma integral_monte_carlo_uniform_nonneg:
  "0 \<le> N \<Longrightarrow> integral_monte_carlo_uniform f rk (Some N) g =
     Inr (np_true_divide (Finite (sum_list (map f (fst (sample_array rk (nat N) g)))))
            (Finite (of_int N)),
          snd (sample_array rk (nat N) g))"
  by (simp add: integral_monte_carlo_uniform_def np_random_random_def split: prod.splits)

lemma integral_monte_carlo_exponential_nonneg:
  "0 \<le> N \<Longrightarrow> integral_monte_carlo_exponential f rk (Some N) g =
     Inr (np_true_divide (Finite (sum_list (map f (fst (sample_array rk (nat N) g)))))
            (Finite (of_int N)),
          snd (sample_array rk (nat N) g))"
  by (simp add: integral_monte_carlo_exponential_def np_random_exponential_def split: prod.splits)

text \<open>
  C10. Calling \<open>integral_monte_carlo\<close> without a sample count is the call with
  \<open>N = 100\<close>, in both cells, and it returns a value (the mean of \<open>f\<close> over 100 draws)
  rather than raising.
\<close>

theorem default_sample_count:
  "integral_monte_carlo_uniform f rk None g = integral_monte_carlo_uniform f rk (Some 100) g
   \<and> integral_monte_carlo_exponential f rk None g
       = integral_monte_carlo_exponential f rk (Some 100) g
   \<and> integral_monte_carlo_uniform f rk None g
       = Inr (Finite (sum_list (map f (fst (sample_array rk 100 g))) / 100),
              snd (sample_array rk 100 g))
   \<and> integral_monte_carlo_exponential f rk None g
       = Inr (Finite (sum_list (map f (fst (sample_array rk 100 g))) / 100),
              snd (sample_array rk 100 g))"
  by (simp add: integral_monte_carlo_uniform_def integral_monte_carlo_exponential_def
      np_random_random_def np_random_exponential_def split: prod.splits)

text \<open>
  C1. With a positive sample count \<open>N\<close>, the estimator of the first cell draws exactly
  \<open>N\<close> variates \<open>x\<^sub>0, \<dots>, x\<^sub>N\<^sub>-\<^sub>1\<close> from \<open>np.random.random\<close> and returns
  \<open>(1/N) * (f x\<^sub>0 + \<dots> + f x\<^sub>N\<^sub>-\<^sub>1)\<close>, their arithmetic mean under \<open>f\<close>, whatever the
  variates are.
\<close>

theorem uniform_estimate_is_sample_mean:
  assumes "0 < N"
  shows "integral_monte_carlo_uniform f rk_double (Some N) g =
           Inr (Finite ((1 / of_int N) *
                  (\<Sum>i<nat N. f (fst (sample_array rk_double (nat N) g) ! i))),
                snd (sample_array rk_double (nat N) g))
         \<and> length (fst (sample_array rk_double (nat N) g)) = nat N"
proof -
  let ?xs = "fst (sample_array rk_double (nat N) g)"
  have len: "length ?xs = nat N" by (rule length_sample_array)
  have "sum_list (map f ?xs) = (\<Sum>i<length ?xs. f (?xs ! i))"
    by (simp add: sum_list_sum_nth atLeast0LessThan)
  then have s: "sum_list (map f ?xs) = (\<Sum>i<nat N. f (?xs ! i))"
    using len by simp
  from assms have "integral_monte_carlo_uniform f rk_double (Some N) g =
      Inr (np_true_divide (Finite (sum_list (map f ?xs))) (Finite (of_int N)),
           snd (sample_array rk_double (nat N) g))"
    by (simp add: integral_monte_carlo_uniform_nonneg)
  with assms s len show ?thesis by simp
qed

theorem uniform_estimate_is_sample_mean_witness:
  "(0::int) < 2 \<and> integral_monte_carlo_uniform f_1 counter_rk (Some 2) 0 =
      Inr (Finite ((exp (1 / 2) + exp (1 / 3)) / 2), 2)"
  using uniform_estimate_is_sample_mean [of 2 f_1 counter_rk 0]
  by (simp add: numeral_2_eq_2 counter_rk_def f_1_def lessThan_Suc)

text \<open>
  C2. With a positive sample count \<open>N\<close>, the estimator of the second cell draws exactly
  \<open>N\<close> variates from \<open>np.random.exponential\<close> (default scale 1) and returns the plain
  mean \<open>(1/N) * (f x\<^sub>0 + \<dots> + f x\<^sub>N\<^sub>-\<^sub>1)\<close>: no sample is weighted by a density.
\<close>

theorem exponential_estimate_is_plain_mean:
  assumes "0 < N"
  shows "integral_monte_carlo_exponential f rk_exponential (Some N) g =
           Inr (Finite ((1 / of_int N) *
                  (\<Sum>i<nat N. f (fst (sample_array rk_exponential (nat N) g) ! i))),
                snd (sample_array rk_exponential (nat N) g))
         \<and> length (fst (sample_array rk_exponential (nat N) g)) = nat N"
proof -
  let ?xs = "fst (sample_array rk_exponential (nat N) g)"
  have len: "length ?xs = nat N" by (rule length_sample_array)
  have "sum_list (map f ?xs) = (\<Sum>i<length ?xs. f (?xs ! i))"
    by (simp add: sum_list_sum_nth atLeast0LessThan)
  then have s: "sum_list (map f ?xs) = (\<Sum>i<nat N. f (?xs ! i))"
    using len by simp
  from assms have "integral_monte_carlo_exponential f rk_exponential (Some N) g =
      Inr (np_true_divide (Finite (sum_list (map f ?xs))) (Finite (of_int N)),
           snd (sample_array rk_exponential (nat N) g))"
    by (simp add: integral_monte_carlo_exponential_nonneg)
  with assms s len show ?thesis by simp
qed

theorem exponential_estimate_is_plain_mean_witness:
  "(0::int) < 2 \<and> integral_monte_carlo_exponential f_2 counter_rk (Some 2) 0 =
      Inr (Finite ((sin (1 / 2) + sin (1 / 3)) / 2), 2)"
  using exponential_estimate_is_plain_mean [of 2 f_2 counter_rk 0]
  by (simp add: numeral_2_eq_2 counter_rk_def f_2_def lessThan_Suc)

text \<open>
  C4, as the code has it. A negative sample count makes the sampler raise ValueError,
  which the estimator passes on. A sample count of zero raises nothing: the sampler
  returns an empty array, its sum is \<open>0.0\<close>, and \<open>0.0 / 0\<close> is NaN, which is returned
  with the generator untouched.
\<close>

theorem nonpositive_sample_count:
  "(N < 0 \<longrightarrow> integral_monte_carlo_uniform f rk (Some N) g = Inl ValueError
             \<and> integral_monte_carlo_exponential f rk (Some N) g = Inl ValueError)
   \<and> integral_monte_carlo_uniform f rk (Some 0) g = Inr (NaN, g)
   \<and> integral_monte_carlo_exponential f rk (Some 0) g = Inr (NaN, g)"
  by (simp add: integral_monte_carlo_uniform_def integral_monte_carlo_exponential_def
      np_random_random_def np_random_exponential_def)

theorem nonpositive_sample_count_witness:
  "(- 3 :: int) < 0
   \<and> integral_monte_carlo_uniform f_1 counter_rk (Some (- 3)) 0 = Inl ValueError
   \<and> integral_monte_carlo_exponential f_2 counter_rk (Some (- 3)) 0 = Inl ValueError"
  using nonpositive_sample_count [of "- 3" f_1 counter_rk 0]
    nonpositive_sample_count [of "- 3" f_2 counter_rk 0]
  by simp

text \<open>
  The claim C4 as the specification states it (every \<open>N \<le> 0\<close> is rejected) fails at
  \<open>N = 0\<close>: the first cell's estimator returns NaN there.
\<close>

theorem zero_sample_count_returns_nan:
  "integral_monte_carlo_uniform f_1 counter_rk (Some 0) 0 = Inr (NaN, 0)"
  by (simp add: integral_monte_carlo_uniform_def np_random_random_def)

section \<open>Properties of the sample counts\<close>

lemma powr_ratio_lower:
  fixes a :: real
  assumes "0 \<le> a" "0 < q" "a ^ q \<le> 10 ^ p"
  shows "a \<le> 10 powr (real p / real q)"
proof -
  let ?x = "10 powr (real p / real q) :: real"
  have "?x ^ q = 10 powr (real p / real q * real q)"
    by (simp add: powr_powr flip: powr_realpow)
  also have "\<dots> = 10 powr real p" using assms(2) by simp
  also have "\<dots> = 10 ^ p" by (simp add: powr_realpow)
  finally have xq: "?x ^ q = 10 ^ p" .
  have "a ^ q \<le> ?x ^ q" using assms(3) xq by simp
  show ?thesis
  proof (rule ccontr)
    assume "\<not> a \<le> ?x"
    then have "?x < a" by simp
    then have "?x ^ q < a ^ q"
      using assms(2) by (intro power_strict_mono) auto
    with \<open>a ^ q \<le> ?x ^ q\<close> show False by simp
  qed
qed

lemma powr_ratio_upper:
  fixes b :: real
  assumes "0 \<le> b" "0 < q" "10 ^ p < b ^ q"
  shows "10 powr (real p / real q) < b"
proof -
  let ?x = "10 powr (real p / real q) :: real"
  have "?x ^ q = 10 powr (real p / real q * real q)"
    by (simp add: powr_powr flip: powr_realpow)
  also have "\<dots> = 10 powr real p" using assms(2) by simp
  also have "\<dots> = 10 ^ p" by (simp add: powr_realpow)
  finally have xq: "?x ^ q = 10 ^ p" .
  have "?x ^ q < b ^ q" using assms(3) xq by simp
  then show ?thesis
    using assms(1) by (rule power_less_imp_less_base)
qed

lemma floor_powr_ratio:
  assumes "0 \<le> a" "0 < q" "(of_int a :: real) ^ q \<le> 10 ^ p" "10 ^ p < (of_int a + 1 :: real) ^ q"
  shows "\<lfloor>10 powr (real p / real q) :: real\<rfloor> = a"
proof (rule floor_unique)
  show "of_int a \<le> (10 powr (real p / real q) :: real)"
    using assms by (intro powr_ratio_lower) auto
  show "(10 powr (real p / real q) :: real) < of_int a + 1"
    using assms by (intro powr_ratio_upper) auto
qed

lemma np_linspace_1_5_10:
  "np_linspace 1 5 10 = [1, 13 / 9, 17 / 9, 7 / 3, 25 / 9, 29 / 9, 11 / 3, 37 / 9, 41 / 9, 5]"
  by (simp add: np_linspace_def upt_rec)

lemma logspace_floors:
  "\<lfloor>10 powr (13 / 9) :: real\<rfloor> = 27"
  "\<lfloor>10 powr (17 / 9) :: real\<rfloor> = 77"
  "\<lfloor>10 powr (7 / 3) :: real\<rfloor> = 215"
  "\<lfloor>10 powr (25 / 9) :: real\<rfloor> = 599"
  "\<lfloor>10 powr (29 / 9) :: real\<rfloor> = 1668"
  "\<lfloor>10 powr (11 / 3) :: real\<rfloor> = 4641"
  "\<lfloor>10 powr (37 / 9) :: real\<rfloor> = 12915"
  "\<lfloor>10 powr (41 / 9) :: real\<rfloor> = 35938"
  using floor_powr_ratio [of 27 9 13] floor_powr_ratio [of 77 9 17]
    floor_powr_ratio [of 215 3 7] floor_powr_ratio [of 599 9 25]
    floor_powr_ratio [of 1668 9 29] floor_powr_ratio [of 4641 3 11]
    floor_powr_ratio [of 12915 9 37] floor_powr_ratio [of 35938 9 41]
  by simp_all

lemma int64_of_double_floor:
  assumes "0 \<le> x" "x < 2 ^ 63"
  shows "int64_of_double x = \<lfloor>x\<rfloor>"
proof -
  have "0 \<le> \<lfloor>x\<rfloor>" using assms(1) by simp
  moreover have "\<lfloor>x\<rfloor> < 2 ^ 63" using assms(2) by (simp add: floor_less_iff)
  ultimately show ?thesis using assms(1) by (simp add: int64_of_double_def)
qed

lemma puntos_1_5_10:
  "puntos 1 5 10 = [10, 27, 77, 215, 599, 1668, 4641, 12915, 35938, 100000]"
  by (simp add: puntos_def np_int_def np_logspace_def np_linspace_1_5_10 int64_of_double_def
      logspace_floors)

lemma np_linspace_eq:
  "np_linspace start stop num =
     map (\<lambda>i. if 1 < num then real i * ((stop - start) / real (num - 1)) + start else start)
       [0..<num]"
proof (cases "1 < num")
  case True
  let ?ys = "map (\<lambda>i. real i * ((stop - start) / real (num - 1)) + start) [0..<num]"
  from True have "?ys ! (num - 1) = stop"
    by (simp add: of_nat_diff)
  moreover from True have "num - 1 < length ?ys" by simp
  ultimately have "?ys[num - 1 := stop] = ?ys"
    by (simp only: list_update_same_conv)
  with True show ?thesis by (simp add: np_linspace_def)
next
  case False
  then have "num = 0 \<or> num = 1" by auto
  then show ?thesis by (auto simp: np_linspace_def)
qed

lemma length_puntos: "length (puntos start stop n) = n"
  by (simp add: puntos_def np_int_def np_logspace_def np_linspace_eq)

lemma linspace_mono:
  fixes start stop :: real
  assumes "start \<le> stop" "i \<le> j"
  shows "real i * ((stop - start) / real (n - 1)) + start
           \<le> real j * ((stop - start) / real (n - 1)) + start"
proof -
  have "real i \<le> real j" using assms(2) by simp
  moreover have "0 \<le> (stop - start) / real (n - 1)" using assms(1) by simp
  ultimately have "real i * ((stop - start) / real (n - 1))
      \<le> real j * ((stop - start) / real (n - 1))"
    by (rule mult_right_mono)
  then show ?thesis by (rule add_right_mono)
qed

lemma convex_nonneg:
  fixes a b d x :: real
  assumes "0 \<le> a" "0 \<le> b" "0 \<le> x" "x \<le> d" "0 < d"
  shows "0 \<le> x * ((b - a) / d) + a"
proof -
  define t where "t = x / d"
  have t0: "0 \<le> t" unfolding t_def using assms by simp
  have t1: "t \<le> 1" unfolding t_def using assms by simp
  have "x * ((b - a) / d) + a = t * b + (1 - t) * a"
    unfolding t_def using assms(5) by (simp add: field_simps)
  moreover have "0 \<le> t * b" using t0 assms(2) by simp
  moreover have "0 \<le> (1 - t) * a" using t1 assms(1) by simp
  ultimately show ?thesis by simp
qed

lemma linspace_nonneg:
  fixes start stop :: real
  assumes "0 \<le> start" "0 \<le> stop" "i < n"
  shows "0 \<le> real i * ((stop - start) / real (n - 1)) + start"
proof (cases "n - 1 = 0")
  case True
  with assms show ?thesis by simp
next
  case False
  then have pos: "0 < real (n - 1)" by simp
  from assms(3) have i: "real i \<le> real (n - 1)" by simp
  have "0 \<le> real i" by simp
  from assms(1,2) this i pos show ?thesis by (rule convex_nonneg)
qed

lemma convex_le:
  fixes a b c d x :: real
  assumes "a \<le> c" "b \<le> c" "0 \<le> x" "x \<le> d" "0 < d"
  shows "x * ((b - a) / d) + a \<le> c"
proof -
  have "0 \<le> x * (((c - b) - (c - a)) / d) + (c - a)"
    using assms by (intro convex_nonneg) auto
  moreover have "x * (((c - b) - (c - a)) / d) + (c - a) = c - (x * ((b - a) / d) + a)"
    using assms(5) by (simp add: field_simps)
  ultimately show ?thesis by simp
qed

lemma linspace_le:
  fixes start stop c :: real
  assumes "start \<le> c" "stop \<le> c" "i < n"
  shows "real i * ((stop - start) / real (n - 1)) + start \<le> c"
proof (cases "n - 1 = 0")
  case True
  with assms show ?thesis by simp
next
  case False
  then have pos: "0 < real (n - 1)" by simp
  from assms(3) have i: "real i \<le> real (n - 1)" by simp
  have "0 \<le> real i" by simp
  from assms(1,2) this i pos show ?thesis by (rule convex_le)
qed

text \<open>
  The log-spaced exponent at index \<open>i\<close>, and the sample count there when the exponents
  are at most 18, so that every value is below \<open>2^63\<close>.
\<close>

lemma puntos_nth:
  assumes "start \<le> 18" "stop \<le> 18" "i < n"
  shows "puntos start stop n ! i =
           \<lfloor>10 powr (if 1 < n then real i * ((stop - start) / real (n - 1)) + start
                        else start)\<rfloor>"
proof -
  let ?y = "if 1 < n then real i * ((stop - start) / real (n - 1)) + start else start"
  have "?y \<le> 18"
  proof (cases "1 < n")
    case True
    then have "?y = real i * ((stop - start) / real (n - 1)) + start" by (simp only: if_True)
    then show ?thesis using linspace_le [OF assms] by (simp only:)
  next
    case False
    then have "?y = start" by (simp only: if_False)
    then show ?thesis using assms(1) by (simp only:)
  qed
  then have "(10::real) powr ?y \<le> 10 powr 18" by (intro powr_mono) auto
  also have "\<dots> < 2 ^ 63" by simp
  finally have "int64_of_double (10 powr ?y) = \<lfloor>10 powr ?y\<rfloor>"
    by (intro int64_of_double_floor) auto
  moreover have "puntos start stop n ! i = int64_of_double (10 powr ?y)"
    using assms(3) by (simp add: puntos_def np_int_def np_logspace_def np_linspace_eq)
  ultimately show ?thesis by (simp only:)
qed

lemma puntos_eq_floor:
  assumes "start \<le> 18" "stop \<le> 18"
  shows "puntos start stop n = map (\<lambda>y. \<lfloor>10 powr y\<rfloor>) (np_linspace start stop n)"
proof (rule nth_equalityI)
  show "length (puntos start stop n) = length (map (\<lambda>y. \<lfloor>10 powr y\<rfloor>) (np_linspace start stop n))"
    by (simp add: length_puntos np_linspace_eq)
next
  fix i assume "i < length (puntos start stop n)"
  then have i: "i < n" by (simp add: length_puntos)
  show "puntos start stop n ! i = map (\<lambda>y. \<lfloor>10 powr y\<rfloor>) (np_linspace start stop n) ! i"
    using i by (simp add: puntos_nth [OF assms i] np_linspace_eq)
qed

lemma puntos_nonneg:
  assumes "start \<le> 18" "stop \<le> 18" "i < n"
  shows "0 \<le> puntos start stop n ! i"
  by (simp add: puntos_nth [OF assms])

lemma sorted_puntos:
  assumes "start \<le> stop" "stop \<le> 18"
  shows "sorted (puntos start stop n)"
proof -
  from assms have b: "start \<le> 18" by simp
  have "puntos start stop n ! i \<le> puntos start stop n ! j" if "i \<le> j" "j < n" for i j
  proof (cases "1 < n")
    case True
    from that have "i < n" by simp
    have "(10::real) powr (real i * ((stop - start) / real (n - 1)) + start)
            \<le> 10 powr (real j * ((stop - start) / real (n - 1)) + start)"
      using linspace_mono [OF assms(1) that(1)] by (simp add: powr_mono)
    then show ?thesis
      using True puntos_nth [OF b assms(2) \<open>i < n\<close>] puntos_nth [OF b assms(2) that(2)]
      by (simp add: floor_mono)
  next
    case False
    with that have "i = j" by simp
    then show ?thesis by simp
  qed
  then show ?thesis
    by (simp add: sorted_iff_nth_mono length_puntos)
qed

lemma floor_eq_round_int_exponent:
  "\<lfloor>10 powr real_of_int e :: real\<rfloor> = round (10 powr real_of_int e :: real)"
proof (cases "0 \<le> e")
  case True
  then obtain k where k: "e = int k" by (auto elim: nonneg_int_cases)
  have "(10::real) powr real k = 10 ^ k" by (simp add: powr_realpow)
  then have "(10::real) powr real_of_int e = of_int (10 ^ k)"
    using k by simp
  then show ?thesis by (simp only: floor_of_int round_of_int)
next
  case False
  then have "real_of_int e \<le> - 1" by linarith
  then have "(10::real) powr real_of_int e \<le> 10 powr (- 1)"
    by (intro powr_mono) auto
  then have le: "(10::real) powr real_of_int e \<le> 1 / 10"
    by (simp add: powr_minus_divide)
  have pos: "0 < (10::real) powr real_of_int e" by simp
  have "\<lfloor>10 powr real_of_int e :: real\<rfloor> = 0"
    using le pos by (intro floor_unique) auto
  moreover have "round (10 powr real_of_int e :: real) = 0"
    unfolding round_def using le pos by (intro floor_unique) auto
  ultimately show ?thesis by simp
qed

lemma hd_puntos:
  assumes "0 < n" "start \<le> 18" "stop \<le> 18"
  shows "hd (puntos start stop n) = \<lfloor>10 powr start\<rfloor>"
proof -
  have "puntos start stop n \<noteq> []" using assms(1) length_puntos [of start stop n] by auto
  then have "hd (puntos start stop n) = puntos start stop n ! 0" by (rule hd_conv_nth)
  then show ?thesis using puntos_nth [OF assms(2,3,1)] by simp
qed

lemma last_puntos:
  assumes "1 < n" "start \<le> 18" "stop \<le> 18"
  shows "last (puntos start stop n) = \<lfloor>10 powr stop\<rfloor>"
proof -
  have ne: "puntos start stop n \<noteq> []" using assms(1) length_puntos [of start stop n] by auto
  from assms(1) have i: "n - 1 < n" by simp
  from assms(1) have "real (n - 1) * ((stop - start) / real (n - 1)) + start = stop"
    by (simp add: of_nat_diff)
  then have "puntos start stop n ! (n - 1) = \<lfloor>10 powr stop\<rfloor>"
    using puntos_nth [OF assms(2,3) i] assms(1) by (simp only: if_True)
  then show ?thesis using last_conv_nth [OF ne] by (simp add: length_puntos)
qed

lemma last_puntos_single:
  assumes "start \<le> 18" "stop \<le> 18"
  shows "last (puntos start stop 1) = \<lfloor>10 powr start\<rfloor>"
proof -
  have ne: "puntos start stop 1 \<noteq> []" using length_puntos [of start stop 1] by auto
  have "puntos start stop 1 ! 0 = \<lfloor>10 powr start\<rfloor>"
    using puntos_nth [OF assms, of 0 1] by simp
  then show ?thesis using last_conv_nth [OF ne] by (simp add: length_puntos)
qed

lemma puntos_ge_1:
  assumes "0 \<le> start" "start \<le> 18" "0 \<le> stop" "stop \<le> 18"
    and "N \<in> set (puntos start stop n)"
  shows "1 \<le> N"
proof -
  from assms(5) obtain i where i: "i < n" and N: "N = puntos start stop n ! i"
    by (metis in_set_conv_nth length_puntos)
  let ?y = "if 1 < n then real i * ((stop - start) / real (n - 1)) + start else start"
  have "0 \<le> ?y"
  proof (cases "1 < n")
    case True
    then have "?y = real i * ((stop - start) / real (n - 1)) + start" by (simp only: if_True)
    then show ?thesis using linspace_nonneg [OF assms(1,3) i] by (simp only:)
  next
    case False
    then have "?y = start" by (simp only: if_False)
    then show ?thesis using assms(1) by (simp only:)
  qed
  then have "(1::real) \<le> 10 powr ?y" by (simp add: ge_one_powr_ge_zero)
  then have "1 \<le> \<lfloor>10 powr ?y\<rfloor>" by simp
  moreover have "N = \<lfloor>10 powr ?y\<rfloor>"
    using N puntos_nth [OF assms(2,4) i] by simp
  ultimately show ?thesis by simp
qed

lemma round_logspace_1: "round (10 powr (13 / 9) :: real) = 28"
proof -
  have "(55 / 2 :: real) ^ 9 \<le> 10 ^ 13" by (simp add: power_divide)
  then have "(55 / 2 :: real) \<le> 10 powr (13 / 9)"
    using powr_ratio_lower [of "55 / 2" 9 13] by simp
  moreover have "(10 :: real) ^ 13 < (57 / 2) ^ 9" by (simp add: power_divide)
  then have "(10 powr (13 / 9) :: real) < 57 / 2"
    using powr_ratio_upper [of "57 / 2" 9 13] by simp
  ultimately show ?thesis
    unfolding round_def by (intro floor_unique) auto
qed

text \<open>
  Outside those bounds: a negative exponent gives the sample count 0, and an exponent of
  19 gives a value that does not fit in 64 bits.
\<close>

lemma puntos_negative_exponent: "puntos (- 1) 0 2 = [0, 1]"
proof -
  have "np_linspace (- 1) 0 2 = [- 1, 0]"
    by (simp add: np_linspace_def upt_rec)
  moreover have "\<lfloor>10 powr (- 1) :: real\<rfloor> = 0"
    by (simp add: powr_minus_divide)
  ultimately show ?thesis
    by (simp add: puntos_eq_floor)
qed

lemma puntos_1_19_2: "puntos 1 19 2 = [10, - (2 ^ 63)]"
proof -
  have "np_linspace 1 19 2 = [1, 19]"
    by (simp add: np_linspace_def upt_rec)
  then show ?thesis
    by (simp add: puntos_def np_int_def np_logspace_def int64_of_double_def)
qed

text \<open>
  C3, as the code has it. The sweep has \<open>T\<close> sample counts. For exponents of at most 18
  each count is the value of \<open>np.logspace(start, stop, T)\<close> cut down to its integer part
  (\<open>np.int_\<close> drops the fraction; it does not round to the nearest integer). The counts
  are at least 1 when, besides, both exponents are non-negative. In the notebook's sweep,
  \<open>puntos\<close> is the list of the integer parts of \<open>logspace(1,5,10)\<close>.
\<close>

theorem puntos_truncated_logspace:
  "length (puntos start stop T) = T
   \<and> (start \<le> 18 \<and> stop \<le> 18 \<longrightarrow>
        puntos start stop T = map (\<lambda>x. \<lfloor>x\<rfloor>) (np_logspace start stop T))
   \<and> (0 \<le> start \<and> start \<le> 18 \<and> 0 \<le> stop \<and> stop \<le> 18 \<longrightarrow>
        (\<forall>N \<in> set (puntos start stop T). 1 \<le> N))
   \<and> puntos 1 5 10 = [10, 27, 77, 215, 599, 1668, 4641, 12915, 35938, 100000]"
proof -
  have "puntos start stop T = map (\<lambda>x. \<lfloor>x\<rfloor>) (np_logspace start stop T)"
    if "start \<le> 18" "stop \<le> 18"
    using puntos_eq_floor [OF that] by (simp add: np_logspace_def)
  moreover have "\<forall>N \<in> set (puntos start stop T). 1 \<le> N"
    if "0 \<le> start" "start \<le> 18" "0 \<le> stop" "stop \<le> 18"
    using puntos_ge_1 [OF that] by blast
  ultimately show ?thesis
    using length_puntos [of start stop T] puntos_1_5_10 by blast
qed

theorem puntos_truncated_logspace_witness:
  "(0::real) \<le> 1 \<and> (1::real) \<le> 18 \<and> (0::real) \<le> 5 \<and> (5::real) \<le> 18
   \<and> 27 \<in> set (puntos 1 5 10) \<and> (1::int) \<le> 27
   \<and> puntos 1 5 10 ! 1 = \<lfloor>np_logspace 1 5 10 ! 1\<rfloor>
   \<and> length (puntos 1 5 10) = 10"
proof -
  note t = puntos_truncated_logspace [of 1 5 10]
  from t have len: "length (puntos 1 5 10) = 10" by (rule conjunct1)
  from t have eq: "puntos 1 5 10 = [10, 27, 77, 215, 599, 1668, 4641, 12915, 35938, 100000]"
    by (rule conjunct2 [OF conjunct2 [OF conjunct2]])
  have mem: "27 \<in> set (puntos 1 5 10)" by (simp add: eq)
  from t have "(0::real) \<le> 1 \<and> (1::real) \<le> 18 \<and> (0::real) \<le> 5 \<and> (5::real) \<le> 18
      \<longrightarrow> (\<forall>N \<in> set (puntos 1 5 10). 1 \<le> N)"
    by (rule conjunct1 [OF conjunct2 [OF conjunct2]])
  then have "\<forall>N \<in> set (puntos 1 5 10). 1 \<le> N" by simp
  then have one: "(1::int) \<le> 27" using mem by (rule bspec)
  from t have "(1::real) \<le> 18 \<and> (5::real) \<le> 18 \<longrightarrow>
      puntos 1 5 10 = map (\<lambda>x. \<lfloor>x\<rfloor>) (np_logspace 1 5 10)"
    by (rule conjunct1 [OF conjunct2])
  then have "puntos 1 5 10 = map (\<lambda>x. \<lfloor>x\<rfloor>) (np_logspace 1 5 10)" by simp
  then have "puntos 1 5 10 ! 1 = map (\<lambda>x. \<lfloor>x\<rfloor>) (np_logspace 1 5 10) ! 1" by (simp only:)
  also have "\<dots> = \<lfloor>np_logspace 1 5 10 ! 1\<rfloor>"
    by (rule nth_map) (simp add: np_logspace_def np_linspace_1_5_10)
  finally have fl: "puntos 1 5 10 ! 1 = \<lfloor>np_logspace 1 5 10 ! 1\<rfloor>" .
  from mem one fl len show ?thesis by simp
qed

text \<open>
  The claim C3 as the specification states it (each count is the nearest integer and at
  least 1) fails at index 1 of the notebook's sweep: the log-spaced value is
  \<open>27.82\<dots>\<close>, whose nearest integer is 28, and \<open>puntos\<close> holds 27. It also fails for
  the exponents \<open>-1, 0\<close>, where the first count is 0, and for the exponents \<open>1, 19\<close>,
  where the second count is \<open>-2^63\<close>.
\<close>

theorem puntos_not_rounded_to_nearest:
  "puntos 1 5 10 ! 1 = 27 \<and> round (np_logspace 1 5 10 ! 1) = 28
   \<and> puntos (- 1) 0 2 = [0, 1]
   \<and> puntos 1 19 2 = [10, - (2 ^ 63)]"
  by (simp add: puntos_1_5_10 np_logspace_def np_linspace_1_5_10 round_logspace_1
      puntos_negative_exponent puntos_1_19_2)

text \<open>
  C7, as the code has it. For integer exponents \<open>lo \<le> hi \<le> 18\<close> the sample counts are
  non-decreasing; with at least one trial the first count is \<open>round (10^lo)\<close>; with at
  least two trials the last count is \<open>round (10^hi)\<close>, and with a single trial it is
  \<open>round (10^lo)\<close>. In the notebook's sweep (\<open>lo = 1\<close>, \<open>hi = 5\<close>, ten trials) \<open>puntos\<close> is
  non-decreasing, starts at 10 and ends at 100000.
\<close>

theorem puntos_sorted_endpoints:
  "(lo \<le> hi \<and> hi \<le> 18 \<longrightarrow>
      sorted (puntos (of_int lo) (of_int hi) T)
      \<and> (1 \<le> T \<longrightarrow> hd (puntos (of_int lo) (of_int hi) T) = round (10 powr real_of_int lo))
      \<and> (2 \<le> T \<longrightarrow> last (puntos (of_int lo) (of_int hi) T) = round (10 powr real_of_int hi))
      \<and> (T = 1 \<longrightarrow> last (puntos (of_int lo) (of_int hi) T) = round (10 powr real_of_int lo)))
   \<and> sorted (puntos 1 5 10) \<and> hd (puntos 1 5 10) = 10 \<and> last (puntos 1 5 10) = 100000"
proof -
  have gen: "sorted (puntos (of_int lo) (of_int hi) T)
      \<and> (1 \<le> T \<longrightarrow> hd (puntos (of_int lo) (of_int hi) T) = round (10 powr real_of_int lo))
      \<and> (2 \<le> T \<longrightarrow> last (puntos (of_int lo) (of_int hi) T) = round (10 powr real_of_int hi))
      \<and> (T = 1 \<longrightarrow> last (puntos (of_int lo) (of_int hi) T) = round (10 powr real_of_int lo))"
    if "lo \<le> hi" "hi \<le> 18"
  proof -
    from that have b: "real_of_int lo \<le> 18" "real_of_int hi \<le> 18"
      and le: "real_of_int lo \<le> real_of_int hi" by simp_all
    have "sorted (puntos (of_int lo) (of_int hi) T)"
      using le b(2) by (rule sorted_puntos)
    moreover have "hd (puntos (of_int lo) (of_int hi) T) = round (10 powr real_of_int lo)"
      if "1 \<le> T"
      using that hd_puntos [of T "of_int lo" "of_int hi"] b
      by (simp add: floor_eq_round_int_exponent)
    moreover have "last (puntos (of_int lo) (of_int hi) T) = round (10 powr real_of_int hi)"
      if "2 \<le> T"
      using that last_puntos [of T "of_int lo" "of_int hi"] b
      by (simp add: floor_eq_round_int_exponent)
    moreover have "last (puntos (of_int lo) (of_int hi) T) = round (10 powr real_of_int lo)"
      if "T = 1"
      using that last_puntos_single [of "of_int lo" "of_int hi"] b
      by (simp add: floor_eq_round_int_exponent)
    ultimately show ?thesis by blast
  qed
  have "sorted (puntos 1 5 10) \<and> hd (puntos 1 5 10) = 10 \<and> last (puntos 1 5 10) = 100000"
    by (simp add: puntos_1_5_10)
  with gen show ?thesis by blast
qed

theorem puntos_sorted_endpoints_witness:
  "(1::int) \<le> 5 \<and> (5::int) \<le> 18 \<and> (1::nat) \<le> 10 \<and> (2::nat) \<le> 10
   \<and> sorted (puntos 1 5 10)
   \<and> hd (puntos 1 5 10) = round ((10::real) powr 1)
   \<and> last (puntos 1 5 10) = round ((10::real) powr 5)
   \<and> last (puntos 1 5 1) = round ((10::real) powr 1)"
  using puntos_sorted_endpoints [of 1 5 10] puntos_sorted_endpoints [of 1 5 1] by simp

text \<open>
  The claim C7 as the specification states it (for every number of trials and every pair
  of exponents) fails for a single trial: \<open>np.logspace(1,5,1)\<close> is \<open>[10.]\<close>, so the last
  sample count is 10 and not \<open>round (10^5)\<close>. It also fails for the exponents \<open>1, 19\<close>:
  the second count is \<open>-2^63\<close>, so the counts decrease and do not end at
  \<open>round (10^19)\<close>.
\<close>

theorem single_trial_last_is_first:
  "last (puntos 1 5 1) = 10 \<and> round ((10::real) powr 5) = 100000
   \<and> \<not> sorted (puntos 1 19 2) \<and> last (puntos 1 19 2) = - (2 ^ 63)"
proof -
  have "last (puntos 1 5 1) = 10"
    using last_puntos_single [of 1 5] by simp
  then show ?thesis by (simp add: puntos_1_19_2)
qed

section \<open>Properties of the convergence loop\<close>

lemma for_range_append:
  "for_range body (xs @ ys) s =
     (case for_range body xs s of Inl e \<Rightarrow> Inl e | Inr s' \<Rightarrow> for_range body ys s')"
  by (induction xs arbitrary: s) (auto split: sum.splits)

lemma trial_step:
  assumes "est (Some (ps ! i)) (trial_state est ps i g) = Inr r"
  shows "est (Some (ps ! i)) (trial_state est ps i g) =
           Inr (trial_estimate est ps i g, trial_state est ps (Suc i) g)"
  using assms by (cases r) (simp add: trial_estimate_def)

lemma sweep_prefix:
  assumes ok: "\<And>i g'. i < n \<Longrightarrow> \<exists>r. est (Some (ps ! i)) g' = Inr r"
    and ps: "length ps = n" and ds: "length ds = n" and k: "k \<le> n"
  shows "for_range (sweep_body est a ps) [0..<k] (ds, g) =
           Inr (map (\<lambda>i. if i < k
                          then np_abs (np_true_divide (np_subtract a (trial_estimate est ps i g)) a)
                          else ds ! i) [0..<n],
                trial_state est ps k g)"
  using k
proof (induction k)
  case 0
  have "map (\<lambda>i. ds ! i) [0..<n] = ds"
    using ds map_nth [of ds] by simp
  then show ?case by simp
next
  case (Suc k)
  let ?rel = "\<lambda>i. np_abs (np_true_divide (np_subtract a (trial_estimate est ps i g)) a)"
  let ?row = "\<lambda>m. map (\<lambda>i. if i < m then ?rel i else ds ! i) [0..<n]"
  from Suc.prems have kn: "k < n" by simp
  then have prev: "for_range (sweep_body est a ps) [0..<k] (ds, g) =
      Inr (?row k, trial_state est ps k g)"
    using Suc.IH by simp
  from ok [OF kn] obtain r where "est (Some (ps ! k)) (trial_state est ps k g) = Inr r"
    by blast
  then have call: "est (Some (ps ! k)) (trial_state est ps k g) =
      Inr (trial_estimate est ps k g, trial_state est ps (Suc k) g)"
    by (rule trial_step)
  have upd: "(?row k)[k := ?rel k] = ?row (Suc k)"
    using kn by (intro nth_equalityI) (auto simp: nth_list_update less_Suc_eq)
  have "sweep_body est a ps k (?row k, trial_state est ps k g) =
      Inr (?row (Suc k), trial_state est ps (Suc k) g)"
    unfolding sweep_body_def using kn ps upd by (simp add: call del: trial_state.simps)
  then show ?case
    using prev by (simp add: for_range_append del: trial_state.simps)
qed

lemma sweep_result:
  assumes ok: "\<And>i g'. i < n \<Longrightarrow> \<exists>r. est (Some (puntos start stop n ! i)) g' = Inr r"
  shows "sweep est a start stop n g =
           Inr (map (\<lambda>i. np_abs (np_true_divide
                                   (np_subtract a (trial_estimate est (puntos start stop n) i g)) a))
                  [0..<n],
                trial_state est (puntos start stop n) n g)"
proof -
  have "sweep est a start stop n g =
      Inr (map (\<lambda>i. if i < n
                     then np_abs (np_true_divide
                            (np_subtract a (trial_estimate est (puntos start stop n) i g)) a)
                     else np_ones n ! i) [0..<n],
           trial_state est (puntos start stop n) n g)"
    unfolding sweep_def
    using sweep_prefix [of n est "puntos start stop n" "np_ones n" n a g] ok
    by (simp add: length_puntos np_ones_def)
  then show ?thesis by simp
qed

lemma estimator_returns_on_puntos:
  assumes "est = integral_monte_carlo_uniform f rk \<or> est = integral_monte_carlo_exponential f rk"
    and "start \<le> 18" "stop \<le> 18" "i < n"
  shows "\<exists>r. est (Some (puntos start stop n ! i)) g' = Inr r"
  using assms(1) puntos_nonneg [OF assms(2,3,4)]
  by (auto simp: integral_monte_carlo_uniform_nonneg integral_monte_carlo_exponential_nonneg)

lemma estimator_state:
  assumes "est = integral_monte_carlo_uniform f rk \<or> est = integral_monte_carlo_exponential f rk"
    and "0 \<le> N"
  shows "est (Some N) g = Inr (np_true_divide (Finite (sum_list (map f (fst (sample_array rk (nat N) g)))))
                               (Finite (of_int N)),
                             snd (sample_array rk (nat N) g))"
  using assms
  by (auto simp: integral_monte_carlo_uniform_nonneg integral_monte_carlo_exponential_nonneg)

lemma snd_sample_array_add:
  "snd (sample_array rk (m + k) g) = snd (sample_array rk k (snd (sample_array rk m g)))"
proof (induction m arbitrary: g)
  case 0
  show ?case by simp
next
  case (Suc m)
  obtain x g1 where d: "rk g = (x, g1)" by (cases "rk g")
  have "snd (sample_array rk (Suc m + k) g) = snd (sample_array rk (m + k) g1)"
    using d by (simp split: prod.splits)
  moreover have "snd (sample_array rk (Suc m) g) = snd (sample_array rk m g1)"
    using d by (simp split: prod.splits)
  ultimately show ?case using Suc [of g1] by simp
qed

lemma trial_state_total_draws:
  assumes est: "est = integral_monte_carlo_uniform f rk \<or> est = integral_monte_carlo_exponential f rk"
    and nonneg: "\<And>i. i < length ps \<Longrightarrow> 0 \<le> ps ! i"
    and k: "k \<le> length ps"
  shows "trial_state est ps k g = snd (sample_array rk (nat (sum_list (take k ps))) g)"
  using k
proof (induction k)
  case 0
  show ?case by simp
next
  case (Suc k)
  then have kl: "k < length ps" by simp
  have pk: "0 \<le> ps ! k" using nonneg kl by simp
  have s: "0 \<le> sum_list (take k ps)"
    by (rule sum_list_nonneg) (auto simp: in_set_conv_nth nonneg)
  have "trial_state est ps (Suc k) g = snd (sample_array rk (nat (ps ! k)) (trial_state est ps k g))"
    using estimator_state [OF est pk] by simp
  also have "\<dots> = snd (sample_array rk (nat (ps ! k))
                      (snd (sample_array rk (nat (sum_list (take k ps))) g)))"
    using Suc kl by simp
  also have "\<dots> = snd (sample_array rk (nat (sum_list (take k ps)) + nat (ps ! k)) g)"
    by (simp only: snd_sample_array_add)
  also have "nat (sum_list (take k ps)) + nat (ps ! k) = nat (sum_list (take (Suc k) ps))"
    using kl pk s by (simp add: take_Suc_conv_app_nth nat_add_distrib)
  finally show ?case .
qed

text \<open>
  What one call in the loop returns: NaN for the sample count 0 (the empty sum divided by
  zero), and the mean of \<open>f\<close> over the variates it draws otherwise.
\<close>

lemma trial_estimate_mean:
  assumes "est = integral_monte_carlo_uniform f rk \<or> est = integral_monte_carlo_exponential f rk"
    and "0 \<le> ps ! i"
  shows "trial_estimate est ps i g =
           (if ps ! i = 0 then NaN
            else Finite (sum_list (map f (fst (sample_array rk (nat (ps ! i))
                                                (trial_state est ps i g))))
                         / real_of_int (ps ! i)))"
  using estimator_state [OF assms, of "trial_state est ps i g"]
  by (simp add: trial_estimate_def)

lemma trial_call:
  assumes "est = integral_monte_carlo_uniform f rk \<or> est = integral_monte_carlo_exponential f rk"
    and "0 \<le> ps ! i"
  shows "est (Some (ps ! i)) (trial_state est ps i g) =
           Inr (if ps ! i = 0 then NaN
                else Finite (sum_list (map f (fst (sample_array rk (nat (ps ! i))
                                                    (trial_state est ps i g))))
                             / real_of_int (ps ! i)),
                trial_state est ps (Suc i) g)"
proof -
  from estimator_state [OF assms, of "trial_state est ps i g"]
  have "est (Some (ps ! i)) (trial_state est ps i g) =
      Inr (trial_estimate est ps i g, trial_state est ps (Suc i) g)"
    by (intro trial_step)
  then show ?thesis by (simp only: trial_estimate_mean [OF assms])
qed

lemma relative_error_record:
  assumes "r \<noteq> 0"
  shows "np_abs (np_true_divide (np_subtract (Finite r) (Finite v)) (Finite r)) =
           Finite (\<bar>r - v\<bar> / \<bar>r\<bar>)"
    and "np_abs (np_true_divide (np_subtract (Finite r) NaN) (Finite r)) = NaN"
  using assms by simp_all

lemma snd_sample_array_counter_rk: "snd (sample_array counter_rk n g) = g + n"
proof (induction n arbitrary: g)
  case 0
  show ?case by simp
next
  case (Suc n)
  have "snd (sample_array counter_rk (Suc n) g) = snd (sample_array counter_rk n (Suc g))"
    by (simp add: counter_rk_def split: prod.splits)
  then show ?case using Suc [of "Suc g"] by simp
qed

lemma counter_rk_draws:
  "sample_array counter_rk 0 g = ([], g)"
  "sample_array counter_rk (Suc 0) 0 = ([1 / 2], Suc 0)"
  "sample_array counter_rk 3 (Suc 0) = ([1 / 3, 1 / 4, 1 / 5], 4)"
  by (simp_all add: counter_rk_def numeral_3_eq_3)

lemma puntos_0_half_2: "puntos 0 (1 / 2) 2 = [1, 3]"
proof -
  have "np_linspace 0 (1 / 2) 2 = [0, 1 / 2]"
    by (simp add: np_linspace_def upt_rec)
  moreover have "\<lfloor>10 powr (1 / 2) :: real\<rfloor> = 3"
    using floor_powr_ratio [of 3 2 1] by simp
  ultimately show ?thesis
    by (simp add: puntos_eq_floor)
qed

text \<open>
  C6. Take either cell's estimator, a reference \<open>r\<close> that is not zero, and exponents of
  at most 18 (so that every sample count fits in 64 bits). Then the convergence loop
  raises nothing and returns exactly \<open>T\<close> records. The estimator is called once per
  index, in ascending order, with the sample count \<open>puntos[i]\<close> and on the generator left
  by the call before it, so that altogether \<open>puntos[0] + \<dots> + puntos[T-1]\<close> variates are
  drawn. The \<open>i\<close>-th call returns the mean \<open>v\<^sub>i\<close> of \<open>f\<close> over its variates, and the
  \<open>i\<close>-th record is \<open>|r - v\<^sub>i| / |r|\<close>. (Where a sample count is 0 the call returns NaN
  and so does the record.)
\<close>

theorem sweep_records_relative_errors:
  assumes "est = integral_monte_carlo_uniform f rk \<or> est = integral_monte_carlo_exponential f rk"
    and "r \<noteq> 0" and "start \<le> 18" and "stop \<le> 18"
  shows "let ps = puntos start stop T;
             v = (\<lambda>i. sum_list (map f (fst (sample_array rk (nat (ps ! i))
                                              (trial_state est ps i g))))
                       / real_of_int (ps ! i));
             ds = map (\<lambda>i. if ps ! i = 0 then NaN else Finite (\<bar>r - v i\<bar> / \<bar>r\<bar>)) [0..<T]
         in sweep est (Finite r) start stop T g = Inr (ds, trial_state est ps T g)
            \<and> length ds = T
            \<and> (\<forall>i<T. est (Some (ps ! i)) (trial_state est ps i g) =
                        Inr (if ps ! i = 0 then NaN else Finite (v i),
                             trial_state est ps (Suc i) g))
            \<and> trial_state est ps T g = snd (sample_array rk (nat (sum_list ps)) g)"
proof -
  let ?ps = "puntos start stop T"
  let ?v = "\<lambda>i. sum_list (map f (fst (sample_array rk (nat (?ps ! i))
                                          (trial_state est ?ps i g))))
                   / real_of_int (?ps ! i)"
  have nn: "0 \<le> ?ps ! i" if "i < T" for i
    using assms(3,4) that by (rule puntos_nonneg)
  have ok: "\<And>i g'. i < T \<Longrightarrow> \<exists>r. est (Some (?ps ! i)) g' = Inr r"
    using estimator_returns_on_puntos [OF assms(1,3,4)] by blast
  have rec: "np_abs (np_true_divide (np_subtract (Finite r) (trial_estimate est ?ps i g))
                       (Finite r)) =
      (if ?ps ! i = 0 then NaN else Finite (\<bar>r - ?v i\<bar> / \<bar>r\<bar>))" if "i < T" for i
    by (simp only: trial_estimate_mean [OF assms(1) nn [OF that]]
          relative_error_record [OF assms(2)] if_distrib [of "\<lambda>b. np_subtract (Finite r) b"]
          if_distrib [of "\<lambda>b. np_true_divide b (Finite r)"] if_distrib [of np_abs])
  have "sweep est (Finite r) start stop T g =
      Inr (map (\<lambda>i. np_abs (np_true_divide
                  (np_subtract (Finite r) (trial_estimate est ?ps i g)) (Finite r))) [0..<T],
           trial_state est ?ps T g)"
    using ok by (rule sweep_result)
  also have "map (\<lambda>i. np_abs (np_true_divide
                  (np_subtract (Finite r) (trial_estimate est ?ps i g)) (Finite r))) [0..<T] =
      map (\<lambda>i. if ?ps ! i = 0 then NaN else Finite (\<bar>r - ?v i\<bar> / \<bar>r\<bar>)) [0..<T]"
    by (rule map_cong) (simp_all add: rec)
  finally have res: "sweep est (Finite r) start stop T g =
      Inr (map (\<lambda>i. if ?ps ! i = 0 then NaN else Finite (\<bar>r - ?v i\<bar> / \<bar>r\<bar>)) [0..<T],
           trial_state est ?ps T g)" .
  have calls: "est (Some (?ps ! i)) (trial_state est ?ps i g) =
      Inr (if ?ps ! i = 0 then NaN else Finite (?v i), trial_state est ?ps (Suc i) g)"
    if "i < T" for i
    using assms(1) nn [OF that] by (rule trial_call)
  have "trial_state est ?ps T g = snd (sample_array rk (nat (sum_list (take T ?ps))) g)"
    using assms(1) by (rule trial_state_total_draws) (simp_all add: length_puntos nn)
  then have total: "trial_state est ?ps T g = snd (sample_array rk (nat (sum_list ?ps)) g)"
    by (simp add: length_puntos)
  show ?thesis
    unfolding Let_def using res calls total by (simp del: trial_state.simps)
qed

theorem sweep_records_relative_errors_witness:
  "(1::real) \<noteq> 0 \<and> (0::real) \<le> 18 \<and> (1 / 2 :: real) \<le> 18 \<and> (1::nat) < 2
   \<and> sweep (integral_monte_carlo_uniform f_1 counter_rk) (Finite 1) 0 (1 / 2) 2 0 =
       Inr ([Finite (exp (1 / 2) - 1),
             Finite ((exp (1 / 3) + exp (1 / 4) + exp (1 / 5)) / 3 - 1)], 4)
   \<and> integral_monte_carlo_uniform f_1 counter_rk (Some (puntos 0 (1 / 2) 2 ! 1)) 1 =
       Inr (Finite ((exp (1 / 3) + exp (1 / 4) + exp (1 / 5)) / 3), 4)"
proof -
  let ?est = "integral_monte_carlo_uniform f_1 counter_rk"
  let ?v = "\<lambda>i. sum_list (map f_1 (fst (sample_array counter_rk (nat ([1, 3] ! i))
                                           (trial_state ?est [1, 3] i 0))))
                  / real_of_int ([1, 3] ! i)"
  have two: "[0..<2] = [0, Suc 0]" by (simp add: upt_rec)
  have st: "trial_state ?est [1, 3] (Suc 0) 0 = Suc 0" "trial_state ?est [1, 3] 2 0 = 4"
    by (simp_all add: integral_monte_carlo_uniform_nonneg counter_rk_draws counter_rk_def
        numeral_2_eq_2)
  have v0: "?v 0 = exp (1 / 2)"
    by (simp add: counter_rk_def f_1_def)
  have v1: "?v (Suc 0) = (exp (1 / 3) + exp (1 / 4) + exp (1 / 5)) / 3"
    by (simp add: st(1) counter_rk_draws counter_rk_def f_1_def del: trial_state.simps)
  have e: "1 < exp (1 / 2 :: real)" "1 < exp (1 / 3 :: real)"
    "1 < exp (1 / 4 :: real)" "1 < exp (1 / 5 :: real)" by simp_all
  have mean: "1 \<le> (a + b + c) / 3" if "1 < a" "1 < b" "1 < c" for a b c :: real
  proof -
    from that have "3 \<le> a + b + c" by linarith
    then show ?thesis by simp
  qed
  have a0: "\<bar>1 - exp (1 / 2 :: real)\<bar> / \<bar>1\<bar> = exp (1 / 2) - 1"
    by simp
  have "1 \<le> (exp (1 / 3 :: real) + exp (1 / 4) + exp (1 / 5)) / 3"
    using e(2,3,4) by (rule mean)
  then have a1: "\<bar>1 - (exp (1 / 3 :: real) + exp (1 / 4) + exp (1 / 5)) / 3\<bar> / \<bar>1\<bar>
      = (exp (1 / 3) + exp (1 / 4) + exp (1 / 5)) / 3 - 1"
    by (simp only: abs_minus_commute [of 1] abs_of_nonneg diff_ge_0_iff_ge abs_one div_by_1)
  have p: "?est = integral_monte_carlo_uniform f_1 counter_rk
            \<or> ?est = integral_monte_carlo_exponential f_1 counter_rk"
    "(1::real) \<noteq> 0" "(0::real) \<le> 18" "(1 / 2 :: real) \<le> 18" by simp_all
  note t = sweep_records_relative_errors
    [OF p, where T = 2 and g = 0, unfolded Let_def puntos_0_half_2]
  have t': "sweep ?est (Finite 1) 0 (1 / 2) 2 0 =
        Inr (map (\<lambda>i. if [1, 3] ! i = (0::int) then NaN else Finite (\<bar>1 - ?v i\<bar> / \<bar>1\<bar>))
               [0..<2],
             trial_state ?est [1, 3] 2 0)
      \<and> (\<forall>i<2. ?est (Some ([1, 3] ! i)) (trial_state ?est [1, 3] i 0) =
             Inr (if [1, 3] ! i = (0::int) then NaN else Finite (?v i),
                  trial_state ?est [1, 3] (Suc i) 0))"
    using t by blast
  from t' have "sweep ?est (Finite 1) 0 (1 / 2) 2 0 =
      Inr ([Finite (\<bar>1 - ?v 0\<bar> / \<bar>1\<bar>), Finite (\<bar>1 - ?v (Suc 0)\<bar> / \<bar>1\<bar>)], 4)"
    by (simp add: two st(2) del: trial_state.simps)
  then have sw: "sweep ?est (Finite 1) 0 (1 / 2) 2 0 =
      Inr ([Finite (exp (1 / 2) - 1),
            Finite ((exp (1 / 3) + exp (1 / 4) + exp (1 / 5)) / 3 - 1)], 4)"
    by (simp only: v0 v1 a0 a1)
  from t' have calls: "\<forall>i<2. ?est (Some ([1, 3] ! i)) (trial_state ?est [1, 3] i 0) =
             Inr (if [1, 3] ! i = (0::int) then NaN else Finite (?v i),
                  trial_state ?est [1, 3] (Suc i) 0)"
    by (rule conjunct2)
  have "?est (Some 3) (Suc 0) = Inr (Finite (?v (Suc 0)), 4)"
    using calls [THEN spec, of "Suc 0"] st
    by (simp add: numeral_2_eq_2 del: trial_state.simps)
  then have "?est (Some 3) (Suc 0) =
      Inr (Finite ((exp (1 / 3) + exp (1 / 4) + exp (1 / 5)) / 3), 4)"
    by (simp only: v1)
  then have "?est (Some (puntos 0 (1 / 2) 2 ! 1)) 1 =
      Inr (Finite ((exp (1 / 3) + exp (1 / 4) + exp (1 / 5)) / 3), 4)"
    by (simp add: puntos_0_half_2)
  with sw show ?thesis by simp
qed

text \<open>
  Beyond those exponents the loop does not finish: with the exponents \<open>1, 19\<close> the second
  sample count is \<open>-2^63\<close>, and the sampler raises ValueError.
\<close>

lemma sweep_overflowing_count:
  "sweep (integral_monte_carlo_uniform f rk) a 1 19 2 g = Inl ValueError"
proof -
  have two: "[0..<2] = [0, Suc 0]" by (simp add: upt_rec)
  obtain x g1 where d: "sample_array rk 10 g = (x, g1)" by (cases "sample_array rk 10 g")
  have first: "integral_monte_carlo_uniform f rk (Some 10) g =
      Inr (Finite (sum_list (map f x) / 10), g1)"
    using d by (simp add: integral_monte_carlo_uniform_def np_random_random_def)
  have second: "integral_monte_carlo_uniform f rk (Some N) g1 = Inl ValueError" if "N < 0" for N
    using that by (simp add: integral_monte_carlo_uniform_def np_random_random_def)
  show ?thesis
    by (simp add: sweep_def puntos_1_19_2 two sweep_body_def np_ones_def first second)
qed

lemma zero_reference_record:
  "np_abs (np_true_divide (np_subtract (Finite 0) b) (Finite 0)) =
     (if b = Finite 0 \<or> b = NaN then NaN else PosInf)"
  by (cases b) auto

lemma sweep_zero_reference:
  assumes "est = integral_monte_carlo_uniform f rk \<or> est = integral_monte_carlo_exponential f rk"
    and "start \<le> 18" "stop \<le> 18"
  shows "sweep est (Finite 0) start stop T g =
           Inr (map (\<lambda>i. if trial_estimate est (puntos start stop T) i g = Finite 0
                             \<or> trial_estimate est (puntos start stop T) i g = NaN
                          then NaN else PosInf) [0..<T],
                trial_state est (puntos start stop T) T g)"
proof -
  have ok: "\<And>i g'. i < T \<Longrightarrow> \<exists>r. est (Some (puntos start stop T ! i)) g' = Inr r"
    using estimator_returns_on_puntos [OF assms] by blast
  have "sweep est (Finite 0) start stop T g =
      Inr (map (\<lambda>i. np_abs (np_true_divide
                  (np_subtract (Finite 0) (trial_estimate est (puntos start stop T) i g))
                  (Finite 0))) [0..<T],
           trial_state est (puntos start stop T) T g)"
    using ok by (rule sweep_result)
  then show ?thesis by (simp only: zero_reference_record)
qed

lemma sum_list_pos:
  fixes f :: "'a \<Rightarrow> real"
  assumes "xs \<noteq> []" "\<And>x. 0 < f x"
  shows "0 < sum_list (map f xs)"
  using assms(1)
proof (induction xs)
  case Nil
  then show ?case by simp
next
  case (Cons x xs)
  have "0 \<le> sum_list (map f xs)"
    by (rule sum_list_nonneg) (auto simp: less_imp_le assms(2))
  with assms(2) [of x] show ?case by simp
qed

lemma trial_estimate_exp_pos:
  assumes "0 < ps ! i"
  shows "\<exists>v. 0 < v \<and> trial_estimate (integral_monte_carlo_uniform f_1 rk) ps i g = Finite v"
proof -
  let ?g = "trial_state (integral_monte_carlo_uniform f_1 rk) ps i g"
  let ?xs = "fst (sample_array rk (nat (ps ! i)) ?g)"
  have "length ?xs = nat (ps ! i)" by (rule length_sample_array)
  with assms have "?xs \<noteq> []" by auto
  then have pos: "0 < sum_list (map f_1 ?xs)"
    by (rule sum_list_pos) (simp add: f_1_def)
  from assms have "trial_estimate (integral_monte_carlo_uniform f_1 rk) ps i g =
      Finite (sum_list (map f_1 ?xs) / of_int (ps ! i))"
    by (simp add: trial_estimate_def integral_monte_carlo_uniform_nonneg)
  moreover have "0 < sum_list (map f_1 ?xs) / of_int (ps ! i)"
    using pos assms by simp
  ultimately show ?thesis by blast
qed

text \<open>
  The claim C8 as the specification states it (a zero reference is either rejected or
  replaced by the absolute error, never recorded as NaN or infinity) fails on the first
  cell's loop run with the reference \<open>0\<close>: nothing is raised and all ten records are
  infinite.
\<close>

theorem zero_reference_records_infinity:
  "sweep (integral_monte_carlo_uniform f_1 counter_rk) (Finite 0) 1 5 10 0 =
     Inr (replicate 10 PosInf, 156090)"
proof -
  let ?est = "integral_monte_carlo_uniform f_1 counter_rk"
  have b: "(1::real) \<le> 18" "(5::real) \<le> 18" "(0::real) \<le> 1" "(0::real) \<le> 5"
    by simp_all
  have fin: "\<not> (trial_estimate ?est (puntos 1 5 10) i 0 = Finite 0
                \<or> trial_estimate ?est (puntos 1 5 10) i 0 = NaN)" if "i < 10" for i
  proof -
    from that have "puntos 1 5 10 ! i \<in> set (puntos 1 5 10)"
      by (simp add: length_puntos)
    then have "1 \<le> puntos 1 5 10 ! i"
      using b by (intro puntos_ge_1 [of 1 5 _ 10])
    then have "0 < puntos 1 5 10 ! i" by simp
    from trial_estimate_exp_pos [OF this, of counter_rk 0]
    obtain v where "0 < v"
      and "trial_estimate ?est (puntos 1 5 10) i 0 = Finite v" by blast
    then show ?thesis by simp
  qed
  have "map (\<lambda>i. if trial_estimate ?est (puntos 1 5 10) i 0 = Finite 0
                    \<or> trial_estimate ?est (puntos 1 5 10) i 0 = NaN
                 then NaN else PosInf) [0..<10] = map (\<lambda>i. PosInf) [0..<10]"
    by (rule map_cong) (simp_all add: fin)
  also have "\<dots> = replicate 10 PosInf"
    by (simp add: map_replicate_const)
  finally have recs: "map (\<lambda>i. if trial_estimate ?est (puntos 1 5 10) i 0 = Finite 0
                    \<or> trial_estimate ?est (puntos 1 5 10) i 0 = NaN
                 then NaN else PosInf) [0..<10] = replicate 10 PosInf" .
  have "trial_state ?est (puntos 1 5 10) 10 0 =
      snd (sample_array counter_rk (nat (sum_list (take 10 (puntos 1 5 10)))) 0)"
    by (rule trial_state_total_draws [where f = f_1])
       (simp_all add: length_puntos puntos_nonneg)
  then have st: "trial_state ?est (puntos 1 5 10) 10 0 = 156090"
    by (simp add: snd_sample_array_counter_rk puntos_1_5_10)
  have "sweep ?est (Finite 0) 1 5 10 0 =
      Inr (map (\<lambda>i. if trial_estimate ?est (puntos 1 5 10) i 0 = Finite 0
                        \<or> trial_estimate ?est (puntos 1 5 10) i 0 = NaN
                     then NaN else PosInf) [0..<10],
           trial_state ?est (puntos 1 5 10) 10 0)"
    by (rule sweep_zero_reference [where f = f_1 and rk = counter_rk]) simp_all
  then show ?thesis by (simp only: recs st)
qed

text \<open>
  C8, as the code has it. With a reference that is exactly zero (and exponents of at most
  18, so that every sample count fits in 64 bits) the loop raises nothing and does not
  fall back to the absolute error: the \<open>i\<close>-th record is NaN when the \<open>i\<close>-th estimate is
  NaN (sample count 0) or zero, and infinity otherwise.
\<close>

theorem zero_reference_records:
  assumes "est = integral_monte_carlo_uniform f rk \<or> est = integral_monte_carlo_exponential f rk"
    and "start \<le> 18" and "stop \<le> 18"
  shows "let ps = puntos start stop T;
             v = (\<lambda>i. sum_list (map f (fst (sample_array rk (nat (ps ! i))
                                              (trial_state est ps i g))))
                       / real_of_int (ps ! i));
             ds = map (\<lambda>i. if ps ! i = 0 \<or> v i = 0 then NaN else PosInf) [0..<T]
         in sweep est (Finite 0) start stop T g = Inr (ds, trial_state est ps T g)
            \<and> (\<forall>i<T. est (Some (ps ! i)) (trial_state est ps i g) =
                        Inr (if ps ! i = 0 then NaN else Finite (v i),
                             trial_state est ps (Suc i) g))"
proof -
  let ?ps = "puntos start stop T"
  let ?v = "\<lambda>i. sum_list (map f (fst (sample_array rk (nat (?ps ! i))
                                          (trial_state est ?ps i g))))
                   / real_of_int (?ps ! i)"
  have nn: "0 \<le> ?ps ! i" if "i < T" for i
    using assms(2,3) that by (rule puntos_nonneg)
  have rec: "(if trial_estimate est ?ps i g = Finite 0 \<or> trial_estimate est ?ps i g = NaN
              then NaN else PosInf) =
      (if ?ps ! i = 0 \<or> ?v i = 0 then NaN else PosInf)" if "i < T" for i
    using trial_estimate_mean [OF assms(1) nn [OF that], of g] by simp
  have "sweep est (Finite 0) start stop T g =
      Inr (map (\<lambda>i. if trial_estimate est ?ps i g = Finite 0 \<or> trial_estimate est ?ps i g = NaN
                     then NaN else PosInf) [0..<T],
           trial_state est ?ps T g)"
    using assms by (rule sweep_zero_reference)
  also have "map (\<lambda>i. if trial_estimate est ?ps i g = Finite 0 \<or> trial_estimate est ?ps i g = NaN
                     then NaN else PosInf) [0..<T] =
      map (\<lambda>i. if ?ps ! i = 0 \<or> ?v i = 0 then NaN else PosInf) [0..<T]"
    by (rule map_cong) (simp_all add: rec)
  finally have res: "sweep est (Finite 0) start stop T g =
      Inr (map (\<lambda>i. if ?ps ! i = 0 \<or> ?v i = 0 then NaN else PosInf) [0..<T],
           trial_state est ?ps T g)" .
  have calls: "est (Some (?ps ! i)) (trial_state est ?ps i g) =
      Inr (if ?ps ! i = 0 then NaN else Finite (?v i), trial_state est ?ps (Suc i) g)"
    if "i < T" for i
    using assms(1) nn [OF that] by (rule trial_call)
  show ?thesis
    unfolding Let_def using res calls by (simp del: trial_state.simps)
qed

theorem zero_reference_records_witness:
  "(- 1 :: real) \<le> 18 \<and> (0::real) \<le> 18 \<and> (1::nat) < 2
   \<and> sweep (integral_monte_carlo_exponential f_2 counter_rk) (Finite 0) (- 1) 0 2 0 =
       Inr ([NaN, PosInf], 1)
   \<and> integral_monte_carlo_exponential f_2 counter_rk (Some (puntos (- 1) 0 2 ! 1)) 0 =
       Inr (Finite (sin (1 / 2)), 1)"
proof -
  let ?est = "integral_monte_carlo_exponential f_2 counter_rk"
  let ?v = "\<lambda>i. sum_list (map f_2 (fst (sample_array counter_rk (nat ([0, 1] ! i))
                                           (trial_state ?est [0, 1] i 0))))
                  / real_of_int ([0, 1] ! i)"
  have two: "[0..<2] = [0, Suc 0]" by (simp add: upt_rec)
  have st: "trial_state ?est [0, 1] (Suc 0) 0 = 0" "trial_state ?est [0, 1] 2 0 = Suc 0"
    by (simp_all add: integral_monte_carlo_exponential_nonneg counter_rk_def numeral_2_eq_2)
  have v1: "?v (Suc 0) = sin (1 / 2)"
    by (simp add: st(1) counter_rk_def f_2_def del: trial_state.simps)
  have pos: "sin (1 / 2 :: real) \<noteq> 0"
    using sin_gt_zero_02 [of "1 / 2"] by simp
  have p: "?est = integral_monte_carlo_uniform f_2 counter_rk
            \<or> ?est = integral_monte_carlo_exponential f_2 counter_rk"
    "(- 1 :: real) \<le> 18" "(0::real) \<le> 18" by simp_all
  note t = zero_reference_records
    [OF p, where T = 2 and g = 0, unfolded Let_def puntos_negative_exponent]
  from t have "sweep ?est (Finite 0) (- 1) 0 2 0 =
      Inr (map (\<lambda>i. if [0, 1] ! i = (0::int) \<or> ?v i = 0 then NaN else PosInf) [0..<2],
           trial_state ?est [0, 1] 2 0)"
    by (rule conjunct1)
  then have "sweep ?est (Finite 0) (- 1) 0 2 0 =
      Inr ([NaN, if ?v (Suc 0) = 0 then NaN else PosInf], Suc 0)"
    by (simp add: two st(2) del: trial_state.simps)
  then have sw: "sweep ?est (Finite 0) (- 1) 0 2 0 = Inr ([NaN, PosInf], 1)"
    using pos by (simp only: v1 if_False One_nat_def)
  from t have calls: "\<forall>i<2. ?est (Some ([0, 1] ! i)) (trial_state ?est [0, 1] i 0) =
             Inr (if [0, 1] ! i = (0::int) then NaN else Finite (?v i),
                  trial_state ?est [0, 1] (Suc i) 0)"
    by (rule conjunct2)
  have "?est (Some 1) 0 = Inr (Finite (?v (Suc 0)), Suc 0)"
    using calls [THEN spec, of "Suc 0"] st
    by (simp add: numeral_2_eq_2 del: trial_state.simps)
  then have "?est (Some 1) 0 = Inr (Finite (sin (1 / 2)), 1)"
    by (simp only: v1 One_nat_def)
  then have "?est (Some (puntos (- 1) 0 2 ! 1)) 0 = Inr (Finite (sin (1 / 2)), 1)"
    by (simp add: puntos_negative_exponent)
  with sw show ?thesis by simp
qed

text \<open>
  Both cells of the notebook, as they stand, run to the end and fill all ten records.
\<close>

lemma cells_fill_ten_records:
  "(\<exists>ds g'. diferencias_1 rk g = Inr (ds, g') \<and> length ds = 10)
   \<and> (\<exists>ds g'. diferencias_2 rk g = Inr (ds, g') \<and> length ds = 10)"
proof -
  have "\<exists>ds g'. sweep est a 1 5 10 g = Inr (ds, g') \<and> length ds = 10"
    if "est = integral_monte_carlo_uniform f rk \<or> est = integral_monte_carlo_exponential f rk"
    for est :: "'a estimator" and f a
  proof -
    have "\<And>i g'. i < 10 \<Longrightarrow> \<exists>r. est (Some (puntos 1 5 10 ! i)) g' = Inr r"
      using estimator_returns_on_puntos [OF that, of 1 5 _ 10] by simp
    from sweep_result [of 10 est 1 5 a g, OF this] show ?thesis by simp
  qed
  then show ?thesis unfolding diferencias_1_def diferencias_2_def by blast
qed

end
